theory Spec2Isabelle
  imports Complex_Main "HOL-Library.AList"
begin

section \<open>Crusader X multiplayer server (server/server.mjs)\<close>

text \<open>
  A shallow embedding of the authoritative game server. JavaScript numbers that carry
  coordinates and distances are idealised as real numbers (exact arithmetic, no rounding);
  a division whose result is not a number of that kind (a zero divisor, which gives
  \<open>NaN\<close> or \<open>Infinity\<close> in JavaScript) is the value \<open>None\<close>. Health, kill counts
  and millisecond timestamps are integers. A JavaScript \<open>Map\<close> is an association list
  with distinct keys in insertion order: \<open>set\<close> is \<open>AList.update\<close> (an existing key keeps
  its place, a new key goes to the end), \<open>delete\<close> is \<open>AList.delete\<close>, \<open>get\<close> is
  \<open>map_of\<close>, and \<open>forEach\<close> visits the list from its head.
\<close>

subsection \<open>Geometry: pointLineDistance\<close>

record vec3 =
  x :: real
  y :: real
  z :: real

definition js_div :: "real \<Rightarrow> real \<Rightarrow> real option" where
  "js_div a b = (if b = 0 then None else Some (a / b))"

definition pointLineDistance :: "vec3 \<Rightarrow> vec3 \<Rightarrow> vec3 \<Rightarrow> real option" where
  "pointLineDistance point lineStart lineEnd =
     (let AB = \<lparr>x = x lineEnd - x lineStart,
                y = y lineEnd - y lineStart,
                z = z lineEnd - z lineStart\<rparr>;
          AP = \<lparr>x = x point - x lineStart,
                y = y point - y lineStart,
                z = z point - z lineStart\<rparr>;
          ab2 = x AB * x AB + y AB * y AB + z AB * z AB
      in if ab2 = 0 then Some (sqrt (x AP * x AP + y AP * y AP + z AP * z AP))
         else (case js_div (x AP * x AB + y AP * y AB + z AP * z AB) ab2 of
                 None \<Rightarrow> None
               | Some t0 \<Rightarrow>
                   let t = max 0 (min 1 t0);
                       closestPoint = \<lparr>x = x lineStart + x AB * t,
                                       y = y lineStart + y AB * t,
                                       z = z lineStart + z AB * t\<rparr>;
                       dx = x point - x closestPoint;
                       dy = y point - y closestPoint;
                       dz = z point - z closestPoint
                   in Some (sqrt (dx * dx + dy * dy + dz * dz))))"






subsection \<open>Player records and messages\<close>

text \<open>
  A connection id is the transport's \<open>channel.id\<close>. The rotation is passed through
  unread (Euler angles or a quaternion). \<open>recentlyHit\<close> is absent (\<open>None\<close>) until the
  first hit. The field \<open>id\<close> of the source is \<open>pid\<close> here.
\<close>

type_synonym conn_id = string

datatype rotation = Euler real real real | Quaternion real real real real

record player =
  pid :: conn_id
  position :: vec3
  rotation :: rotation
  velocity :: real
  nickname :: string
  colorIndex :: int
  health :: int
  kills :: int
  timestamp :: int
  recentlyHit :: "bool option"

text \<open>The payload of a client's \<open>playerUpdate\<close>; an absent property is \<open>None\<close>.\<close>

record playerUpdateData =
  u_position :: "vec3 option"
  u_rotation :: "rotation option"
  u_velocity :: "real option"
  u_nickname :: "string option"
  u_colorIndex :: "int option"
  u_isRespawning :: bool

text \<open>The payload of a client's \<open>laserFire\<close>, and the buffered event with its shooter.\<close>

record laserFireData =
  startPosition :: "vec3 option"
  endPosition :: "vec3 option"
  likelyHit :: bool

record laserEvent = laserFireData +
  shooterId :: conn_id

text \<open>The eight fields the server sends about a player.\<close>

record playerState =
  s_id :: conn_id
  s_position :: vec3
  s_rotation :: rotation
  s_velocity :: real
  s_nickname :: string
  s_colorIndex :: int
  s_health :: int
  s_kills :: int

datatype message =
    PlayerJoinedBroadcast conn_id playerState
  | PlayerJoinedTo conn_id player
  | PlayerLeft conn_id
  | LaserFires "laserEvent list"
  | PlayerUpdateAll "(conn_id \<times> playerState) list"

subsection \<open>Server state\<close>

text \<open>
  The module's maps, the pending \<open>setTimeout\<close> callbacks of the hit handler (each with
  the time it is due and the \<open>closestPlayerId\<close> it closes over, in the order they were
  scheduled) and the messages emitted so far.
\<close>

record server =
  players :: "(conn_id \<times> player) list"
  disconnectedPlayers :: "(conn_id \<times> player) list"
  playerLastSeen :: "(conn_id \<times> int) list"
  laserBuffer :: "(conn_id \<times> laserEvent list) list"
  hitTimers :: "(int \<times> conn_id) list"
  outbox :: "message list"

definition PLAYER_TIMEOUT :: int where
  "PLAYER_TIMEOUT = 10000"

definition DISCONNECTED_PLAYER_TIMEOUT :: int where
  "DISCONNECTED_PLAYER_TIMEOUT = 60000"

definition hitThreshold :: real where
  "hitThreshold = 10"

text \<open>The state after \<open>clearPlayerData\<close> at startup.\<close>

definition initial :: server where
  "initial = \<lparr>players = [], disconnectedPlayers = [], playerLastSeen = [],
              laserBuffer = [], hitTimers = [], outbox = []\<rparr>"

definition publicState :: "conn_id \<Rightarrow> player \<Rightarrow> playerState" where
  "publicState i p = \<lparr>s_id = i, s_position = position p, s_rotation = rotation p,
     s_velocity = velocity p, s_nickname = nickname p, s_colorIndex = colorIndex p,
     s_health = health p, s_kills = kills p\<rparr>"

subsection \<open>io.onConnection\<close>

text \<open>\<open>now\<close> is the value of \<open>Date.now()\<close> while the handler runs.\<close>

definition newPlayer :: "conn_id \<Rightarrow> int \<Rightarrow> player" where
  "newPlayer i now = \<lparr>pid = i, position = \<lparr>x = 0, y = 0, z = 0\<rparr>, rotation = Euler 0 0 0,
     velocity = 0, nickname = ''Unknown'', colorIndex = 0, health = 100, kills = 0,
     timestamp = now, recentlyHit = None\<rparr>"

definition onConnection :: "int \<Rightarrow> conn_id \<Rightarrow> server \<Rightarrow> server" where
  "onConnection now i s =
     (let s1 = (case map_of (disconnectedPlayers s) i of
                  Some previousState \<Rightarrow>
                    s\<lparr>disconnectedPlayers := AList.delete i (disconnectedPlayers s),
                      players := AList.update i (previousState\<lparr>timestamp := now\<rparr>) (players s)\<rparr>
                | None \<Rightarrow> s\<lparr>players := AList.update i (newPlayer i now) (players s)\<rparr>);
          s2 = s1\<lparr>playerLastSeen := AList.update i now (playerLastSeen s1)\<rparr>;
          joined = (case map_of (players s2) i of
                      Some p \<Rightarrow> [PlayerJoinedBroadcast i (publicState i p)]
                    | None \<Rightarrow> []);
          existing = map (\<lambda>(playerId, playerData). PlayerJoinedTo i playerData)
                       (filter (\<lambda>(playerId, playerData). playerId \<noteq> i) (players s2))
      in s2\<lparr>outbox := outbox s2 @ joined @ existing\<rparr>)"

subsection \<open>channel.on('laserFire')\<close>

text \<open>
  The scan of \<open>players.forEach\<close>: \<open>scanVisit\<close> is its callback and \<open>findClosest\<close>
  the loop. The accumulator holds \<open>minDistance\<close> and \<open>closestPlayerId\<close>: \<open>None\<close> is their
  initial pair (\<open>Infinity\<close>, \<open>null\<close>), below which every distance lies. A distance that
  is not a number compares false.
\<close>

definition scanVisit ::
  "conn_id \<Rightarrow> vec3 \<Rightarrow> vec3 \<Rightarrow> conn_id \<times> player \<Rightarrow> (real \<times> conn_id) option
    \<Rightarrow> (real \<times> conn_id) option" where
  "scanVisit i sp ep e acc =
     (case e of (otherId, otherPlayer) \<Rightarrow>
        if otherId = i \<or> health otherPlayer \<le> 0 then acc
        else (case pointLineDistance (position otherPlayer) sp ep of
                None \<Rightarrow> acc
              | Some distance \<Rightarrow>
                  if distance < hitThreshold \<and>
                     (case acc of None \<Rightarrow> True | Some (minDistance, c) \<Rightarrow> distance < minDistance)
                  then Some (distance, otherId)
                  else acc))"

fun findClosest ::
  "conn_id \<Rightarrow> vec3 \<Rightarrow> vec3 \<Rightarrow> (conn_id \<times> player) list \<Rightarrow> (real \<times> conn_id) option
    \<Rightarrow> (real \<times> conn_id) option" where
  "findClosest i sp ep [] acc = acc"
| "findClosest i sp ep (e # rest) acc = findClosest i sp ep rest (scanVisit i sp ep e acc)"

text \<open>
  The damage logic for a found \<open>closestPlayerId\<close>. Assigning to a property of an object
  held in the map is \<open>AList.map_entry\<close> at its key (each record is stored under its own
  id only). \<open>shooter.kills || 0\<close> is \<open>0\<close> when the count is \<open>0\<close>. The callback given to
  \<open>setTimeout\<close> is \<open>hitTimeout\<close>; it is queued with its due time.
\<close>

definition applyDamage :: "int \<Rightarrow> conn_id \<Rightarrow> conn_id \<Rightarrow> server \<Rightarrow> server" where
  "applyDamage now i closestPlayerId s =
     (case map_of (players s) closestPlayerId of
        None \<Rightarrow> s
      | Some targetPlayer \<Rightarrow>
          let oldHealth = health targetPlayer;
              newHealth = max 0 (oldHealth - 5);
              ps1 = AList.map_entry closestPlayerId (\<lambda>t. t\<lparr>health := newHealth\<rparr>) (players s);
              ps2 = (if oldHealth > 0 \<and> newHealth = 0
                     then AList.map_entry closestPlayerId (\<lambda>t. t\<lparr>kills := 0\<rparr>)
                            (AList.map_entry i
                               (\<lambda>shooter. shooter\<lparr>kills :=
                                  (if kills shooter = 0 then 0 else kills shooter) + 1\<rparr>) ps1)
                     else ps1);
              ps3 = AList.map_entry closestPlayerId (\<lambda>t. t\<lparr>recentlyHit := Some True\<rparr>) ps2
          in s\<lparr>players := ps3, hitTimers := hitTimers s @ [(now + 500, closestPlayerId)]\<rparr>)"

definition hitTimeout :: "conn_id \<Rightarrow> server \<Rightarrow> server" where
  "hitTimeout closestPlayerId s =
     s\<lparr>players := AList.map_entry closestPlayerId
                     (\<lambda>currentTarget. currentTarget\<lparr>recentlyHit := Some False\<rparr>) (players s)\<rparr>"

definition bufferLaser :: "conn_id \<Rightarrow> laserFireData \<Rightarrow> server \<Rightarrow> server" where
  "bufferLaser i d s =
     (let buf = (case map_of (laserBuffer s) i of None \<Rightarrow> [] | Some evs \<Rightarrow> evs);
          eventDataWithShooterId = \<lparr>startPosition = startPosition d, endPosition = endPosition d,
                                      likelyHit = likelyHit d, shooterId = i\<rparr>
      in s\<lparr>laserBuffer := AList.update i
              (if length buf < 2 then buf @ [eventDataWithShooterId] else buf) (laserBuffer s)\<rparr>)"

text \<open>The handler; a missing payload is \<open>None\<close>.\<close>

definition laserFire :: "int \<Rightarrow> conn_id \<Rightarrow> laserFireData option \<Rightarrow> server \<Rightarrow> server" where
  "laserFire now i data s =
     (case data of
        None \<Rightarrow> s
      | Some d \<Rightarrow>
          (case startPosition d of
             None \<Rightarrow> s
           | Some sp \<Rightarrow>
               (case endPosition d of
                  None \<Rightarrow> s
                | Some ep \<Rightarrow>
                    bufferLaser i d
                      (if likelyHit d
                       then (case findClosest i sp ep (players s) None of
                               Some (minDistance, closestPlayerId) \<Rightarrow>
                                 applyDamage now i closestPlayerId s
                             | None \<Rightarrow> s)
                       else s))))"

subsection \<open>channel.onDisconnect\<close>

definition onDisconnect :: "conn_id \<Rightarrow> server \<Rightarrow> server" where
  "onDisconnect i s =
     s\<lparr>disconnectedPlayers :=
         (case map_of (players s) i of
            Some playerData \<Rightarrow> AList.update i playerData (disconnectedPlayers s)
          | None \<Rightarrow> disconnectedPlayers s),
       players := AList.delete i (players s),
       playerLastSeen := AList.delete i (playerLastSeen s),
       outbox := outbox s @ [PlayerLeft i]\<rparr>"

subsection \<open>channel.on('playerUpdate')\<close>

text \<open>A string is truthy when it is present and not empty.\<close>

definition truthy :: "string option \<Rightarrow> bool" where
  "truthy v = (case v of None \<Rightarrow> False | Some n \<Rightarrow> n \<noteq> [])"

definition respawn :: "playerUpdateData \<Rightarrow> player \<Rightarrow> player" where
  "respawn d p =
     (let p1 = p\<lparr>health := 100, kills := 0\<rparr>;
          p2 = (case u_position d of Some v \<Rightarrow> p1\<lparr>position := v\<rparr> | None \<Rightarrow> p1);
          p3 = (case u_rotation d of Some r \<Rightarrow> p2\<lparr>rotation := r\<rparr> | None \<Rightarrow> p2);
          p4 = p3\<lparr>nickname := (if truthy (u_nickname d) then the (u_nickname d) else nickname p3)\<rparr>
      in p4\<lparr>colorIndex := (case u_colorIndex d of Some c \<Rightarrow> c | None \<Rightarrow> colorIndex p4)\<rparr>)"

definition regularUpdate :: "playerUpdateData \<Rightarrow> player \<Rightarrow> player" where
  "regularUpdate d p =
     (let p1 = (case u_position d of Some v \<Rightarrow> p\<lparr>position := v\<rparr> | None \<Rightarrow> p);
          p2 = (case u_rotation d of Some r \<Rightarrow> p1\<lparr>rotation := r\<rparr> | None \<Rightarrow> p1);
          p3 = (case u_velocity d of Some v \<Rightarrow> p2\<lparr>velocity := v\<rparr> | None \<Rightarrow> p2);
          p4 = (if truthy (u_nickname d) \<and> the (u_nickname d) \<noteq> nickname p3
                then p3\<lparr>nickname := the (u_nickname d)\<rparr>
                else if truthy (u_nickname d) then p3\<lparr>nickname := the (u_nickname d)\<rparr>
                else p3)
      in (case u_colorIndex d of Some c \<Rightarrow> p4\<lparr>colorIndex := c\<rparr> | None \<Rightarrow> p4))"

definition playerUpdate :: "int \<Rightarrow> conn_id \<Rightarrow> playerUpdateData \<Rightarrow> server \<Rightarrow> server" where
  "playerUpdate now i d s =
     (case map_of (players s) i of
        None \<Rightarrow> s
      | Some _ \<Rightarrow>
          s\<lparr>playerLastSeen := AList.update i now (playerLastSeen s),
            players := AList.map_entry i
              (\<lambda>player. (if u_isRespawning d then respawn d else regularUpdate d)
                           (player\<lparr>timestamp := now\<rparr>))
              (players s)\<rparr>)"

subsection \<open>The sweeper, every five seconds\<close>

text \<open>
  First the disconnected records are purged, then \<open>playerLastSeen.forEach\<close> times the
  silent players out; its callback deletes only the entry it is visiting, so it sees the
  entries as they were when the loop began.
\<close>

definition purgeDisconnected :: "int \<Rightarrow> server \<Rightarrow> server" where
  "purgeDisconnected now s =
     s\<lparr>disconnectedPlayers :=
         filter (\<lambda>(i, playerData). \<not> now - timestamp playerData > DISCONNECTED_PLAYER_TIMEOUT)
           (disconnectedPlayers s)\<rparr>"

definition timeOut :: "conn_id \<Rightarrow> server \<Rightarrow> server" where
  "timeOut i s =
     s\<lparr>disconnectedPlayers :=
         (case map_of (players s) i of
            Some playerData \<Rightarrow> AList.update i playerData (disconnectedPlayers s)
          | None \<Rightarrow> disconnectedPlayers s),
       players := AList.delete i (players s),
       playerLastSeen := AList.delete i (playerLastSeen s),
       outbox := outbox s @ [PlayerLeft i]\<rparr>"

fun sweepInactive :: "int \<Rightarrow> (conn_id \<times> int) list \<Rightarrow> server \<Rightarrow> server" where
  "sweepInactive now [] s = s"
| "sweepInactive now ((i, lastSeen) # rest) s =
     sweepInactive now rest (if now - lastSeen > PLAYER_TIMEOUT then timeOut i s else s)"

definition sweep :: "int \<Rightarrow> server \<Rightarrow> server" where
  "sweep now s = (let s1 = purgeDisconnected now s in sweepInactive now (playerLastSeen s1) s1)"

subsection \<open>The two broadcast intervals\<close>

definition flushLasers :: "server \<Rightarrow> server" where
  "flushLasers s =
     (let allLaserEvents = concat (map snd (laserBuffer s))
      in s\<lparr>laserBuffer := [],
           outbox := outbox s @ (if length allLaserEvents > 0 then [LaserFires allLaserEvents] else [])\<rparr>)"

definition syncState :: "server \<Rightarrow> server" where
  "syncState s =
     (let allPlayersData = map (\<lambda>(playerId, playerData). (playerId, publicState (pid playerData) playerData))
                             (players s)
      in s\<lparr>outbox := outbox s @ (if length allPlayersData > 0 then [PlayerUpdateAll allPlayersData] else [])\<rparr>)"

subsection \<open>The event loop\<close>

text \<open>
  One turn of the loop handles one event at the time \<open>now\<close> of the clock. The callbacks of
  \<open>setTimeout\<close> that are due by then have run first, in the order they were scheduled
  (they all wait 500 ms, so that is the order in which they fall due).
\<close>

datatype event =
    Connect conn_id
  | LaserFire conn_id "laserFireData option"
  | Disconnect conn_id
  | PlayerUpdate conn_id playerUpdateData
  | Sweep
  | FlushLasers
  | SyncState

definition runTimers :: "int \<Rightarrow> server \<Rightarrow> server" where
  "runTimers now s =
     (fold (\<lambda>(due, i). hitTimeout i) (filter (\<lambda>(due, i). due \<le> now) (hitTimers s)) s)
       \<lparr>hitTimers := filter (\<lambda>(due, i). \<not> due \<le> now) (hitTimers s)\<rparr>"

fun handle :: "int \<Rightarrow> event \<Rightarrow> server \<Rightarrow> server" where
  "handle now (Connect i) s = onConnection now i s"
| "handle now (LaserFire i data) s = laserFire now i data s"
| "handle now (Disconnect i) s = onDisconnect i s"
| "handle now (PlayerUpdate i d) s = playerUpdate now i d s"
| "handle now Sweep s = sweep now s"
| "handle now FlushLasers s = flushLasers s"
| "handle now SyncState s = syncState s"

definition step :: "server \<Rightarrow> int \<times> event \<Rightarrow> server" where
  "step s e = handle (fst e) (snd e) (runTimers (fst e) s)"

definition run :: "(int \<times> event) list \<Rightarrow> server" where
  "run es = foldl step initial es"

subsection \<open>Vocabulary of the invariants\<close>

text \<open>The keys of a map; a property of all its values; the three invariants of the registry.\<close>

definition keysOf :: "('k \<times> 'v) list \<Rightarrow> 'k set" where
  "keysOf al = fst ` set al"

definition allValues :: "('v \<Rightarrow> bool) \<Rightarrow> ('k \<times> 'v) list \<Rightarrow> bool" where
  "allValues P al = list_all (\<lambda>kv. P (snd kv)) al"

definition healthInRange :: "player \<Rightarrow> bool" where
  "healthInRange p \<longleftrightarrow> 0 \<le> health p \<and> health p \<le> 100"

definition healthInv :: "server \<Rightarrow> bool" where
  "healthInv s \<longleftrightarrow>
     allValues healthInRange (players s) \<and> allValues healthInRange (disconnectedPlayers s)"

definition registryInv :: "server \<Rightarrow> bool" where
  "registryInv s \<longleftrightarrow> keysOf (players s) \<inter> keysOf (disconnectedPlayers s) = {}"

definition lastSeenInv :: "server \<Rightarrow> bool" where
  "lastSeenInv s \<longleftrightarrow> keysOf (players s) = keysOf (playerLastSeen s)"


text \<open>
  The distance at which the scan may hit an entry: defined for a player other than the
  shooter, with positive health, closer to the segment than the threshold.
\<close>

definition hitDistance :: "conn_id \<Rightarrow> vec3 \<Rightarrow> vec3 \<Rightarrow> conn_id \<times> player \<Rightarrow> real option" where
  "hitDistance i sp ep e =
     (if fst e \<noteq> i \<and> 0 < health (snd e)
      then (case pointLineDistance (position (snd e)) sp ep of
              None \<Rightarrow> None
            | Some d \<Rightarrow> if d < hitThreshold then Some d else None)
      else None)"

text \<open>Health and kills of every entry of a map, for the examples.\<close>

definition scoreboard :: "(conn_id \<times> player) list \<Rightarrow> (conn_id \<times> int \<times> int) list" where
  "scoreboard ps = map (\<lambda>(i, p). (i, health p, kills p)) ps"

text \<open>Concrete inputs for the examples: a shot along the x axis from 1 to 2.\<close>

definition shot :: laserFireData where
  "shot = \<lparr>startPosition = Some \<lparr>x = 1, y = 0, z = 0\<rparr>,
           endPosition = Some \<lparr>x = 2, y = 0, z = 0\<rparr>, likelyHit = True\<rparr>"

definition noUpdate :: playerUpdateData where
  "noUpdate = \<lparr>u_position = None, u_rotation = None, u_velocity = None, u_nickname = None,
               u_colorIndex = None, u_isRespawning = False\<rparr>"

text \<open>
  A trace in which the shooter is swept: A hits B nineteen times, B reports at 5 s, A
  never does, and the sweeper at 10.001 s times A out.
\<close>

definition sweptShooterTrace :: "(int \<times> event) list" where
  "sweptShooterTrace =
     [(0, Connect ''A''), (0, Connect ''B'')]
     @ replicate 19 (1, LaserFire ''A'' (Some shot))
     @ [(5000, PlayerUpdate ''B'' noUpdate), (10001, Sweep)]"

section \<open>Geometry\<close>















section \<open>Association lists\<close>

lemma keysOf_Nil: "keysOf [] = {}"
  by (simp add: keysOf_def)

lemma keysOf_update: "keysOf (AList.update k v al) = insert k (keysOf al)"
  by (simp add: keysOf_def dom_update)

lemma keysOf_delete: "keysOf (AList.delete k al) = keysOf al - {k}"
  by (induction al) (auto simp: keysOf_def)

lemma keysOf_map_entry: "keysOf (AList.map_entry k f al) = keysOf al"
  by (simp add: keysOf_def dom_map_entry)

lemma keysOf_filter: "keysOf (filter Q al) \<subseteq> keysOf al"
  by (auto simp: keysOf_def)

lemma map_of_keysOf: "map_of al k = Some v \<Longrightarrow> k \<in> keysOf al"
  by (auto simp: keysOf_def dest: map_of_SomeD intro: rev_image_eqI)

lemma map_of_None_keysOf: "map_of al k = None \<longleftrightarrow> k \<notin> keysOf al"
  by (simp add: keysOf_def map_of_eq_None_iff)

lemma allValues_Nil: "allValues P []"
  by (simp add: allValues_def)

lemma allValues_update: "P v \<Longrightarrow> allValues P al \<Longrightarrow> allValues P (AList.update k v al)"
  by (induction al) (auto simp: allValues_def)

lemma allValues_delete: "allValues P al \<Longrightarrow> allValues P (AList.delete k al)"
  by (induction al) (auto simp: allValues_def)

lemma allValues_filter: "allValues P al \<Longrightarrow> allValues P (filter Q al)"
  by (induction al) (auto simp: allValues_def)

lemma allValues_map_entry:
  "(\<And>v. P v \<Longrightarrow> P (f v)) \<Longrightarrow> allValues P al \<Longrightarrow> allValues P (AList.map_entry k f al)"
  by (induction al) (auto simp: allValues_def)

lemma allValues_map_of: "allValues P al \<Longrightarrow> map_of al k = Some v \<Longrightarrow> P v"
  by (induction al) (auto simp: allValues_def split: if_splits)

lemma allValues_if: "allValues P a \<Longrightarrow> allValues P b \<Longrightarrow> allValues P (if c then a else b)"
  by simp

section \<open>Invariants of the registry\<close>

subsection \<open>Health stays in range\<close>

lemma healthInv_initial: "healthInv initial"
  by (simp add: healthInv_def initial_def allValues_Nil)

lemma healthInv_onConnection: "healthInv s \<Longrightarrow> healthInv (onConnection now i s)"
proof -
  assume inv: "healthInv s"
  have new: "healthInRange (newPlayer i now)"
    by (simp add: healthInRange_def newPlayer_def)
  have old: "\<And>q. map_of (disconnectedPlayers s) i = Some q \<Longrightarrow> healthInRange (q\<lparr>timestamp := now\<rparr>)"
    using inv allValues_map_of [of healthInRange "disconnectedPlayers s" i]
    by (simp add: healthInv_def healthInRange_def)
  show ?thesis
    using inv new old
    by (cases "map_of (disconnectedPlayers s) i")
       (simp_all add: healthInv_def onConnection_def Let_def allValues_update allValues_delete)
qed

lemma healthInv_applyDamage: "healthInv s \<Longrightarrow> healthInv (applyDamage now i c s)"
proof -
  assume inv: "healthInv s"
  have ps: "allValues healthInRange (players s)" using inv by (simp add: healthInv_def)
  show ?thesis
  proof (cases "map_of (players s) c")
    case None
    then show ?thesis using inv by (simp add: applyDamage_def)
  next
    case (Some targetPlayer)
    have t: "healthInRange targetPlayer" by (rule allValues_map_of [OF ps Some])
    have h: "\<And>q. healthInRange (q\<lparr>health := max 0 (health targetPlayer - 5)\<rparr>)"
      using t by (simp add: healthInRange_def)
    have ps1: "allValues healthInRange
            (AList.map_entry c (\<lambda>t. t\<lparr>health := max 0 (health targetPlayer - 5)\<rparr>) (players s))"
      by (rule allValues_map_entry [OF h ps])
    let ?ps1 = "AList.map_entry c (\<lambda>t. t\<lparr>health := max 0 (health targetPlayer - 5)\<rparr>) (players s)"
    let ?kill = "AList.map_entry c (\<lambda>t. t\<lparr>kills := 0\<rparr>)
               (AList.map_entry i
                  (\<lambda>shooter. shooter\<lparr>kills := (if kills shooter = 0 then 0 else kills shooter) + 1\<rparr>)
                  ?ps1)"
    let ?hit = "AList.map_entry c (\<lambda>t. t\<lparr>recentlyHit := Some True\<rparr>)"
    have a: "allValues healthInRange (?hit ?kill)"
      by (intro allValues_map_entry ps1) (simp_all add: healthInRange_def)
    have b: "allValues healthInRange (?hit ?ps1)"
      by (intro allValues_map_entry ps1) (simp_all add: healthInRange_def)
    have eq: "players (applyDamage now i c s) =
            (if health targetPlayer > 0 \<and> max 0 (health targetPlayer - 5) = 0
             then ?hit ?kill else ?hit ?ps1)"
      using Some by (simp add: applyDamage_def Let_def)
    have "allValues healthInRange (players (applyDamage now i c s))"
      unfolding eq by (rule allValues_if [OF a b])
    moreover have "disconnectedPlayers (applyDamage now i c s) = disconnectedPlayers s"
      using Some by (simp add: applyDamage_def Let_def)
    ultimately show ?thesis using inv by (simp add: healthInv_def)
  qed
qed

lemma healthInv_bufferLaser: "healthInv s \<Longrightarrow> healthInv (bufferLaser i d s)"
  by (simp add: healthInv_def bufferLaser_def Let_def)

lemma healthInv_laserFire: "healthInv s \<Longrightarrow> healthInv (laserFire now i data s)"
  by (auto simp: laserFire_def healthInv_bufferLaser healthInv_applyDamage split: option.splits)

lemma healthInv_onDisconnect: "healthInv s \<Longrightarrow> healthInv (onDisconnect i s)"
  by (auto simp: healthInv_def onDisconnect_def allValues_update allValues_delete
      split: option.splits dest: allValues_map_of)

lemma healthInv_timeOut: "healthInv s \<Longrightarrow> healthInv (timeOut i s)"
  by (auto simp: healthInv_def timeOut_def allValues_update allValues_delete
      split: option.splits dest: allValues_map_of)

lemma healthInRange_respawn: "healthInRange (respawn d p)"
  by (simp add: respawn_def healthInRange_def Let_def split: option.splits)

lemma health_regularUpdate: "health (regularUpdate d p) = health p"
  by (simp add: regularUpdate_def Let_def split: option.splits)

lemma healthInv_playerUpdate: "healthInv s \<Longrightarrow> healthInv (playerUpdate now i d s)"
proof -
  assume inv: "healthInv s"
  have "\<And>q. healthInRange q \<Longrightarrow>
          healthInRange ((if u_isRespawning d then respawn d else regularUpdate d) (q\<lparr>timestamp := now\<rparr>))"
    by (simp add: healthInRange_respawn) (simp add: healthInRange_def health_regularUpdate)
  then show ?thesis
    using inv
    by (cases "map_of (players s) i")
       (simp_all add: playerUpdate_def healthInv_def allValues_map_entry)
qed

lemma healthInv_purgeDisconnected: "healthInv s \<Longrightarrow> healthInv (purgeDisconnected now s)"
  by (simp add: healthInv_def purgeDisconnected_def allValues_filter)

lemma healthInv_sweepInactive: "healthInv s \<Longrightarrow> healthInv (sweepInactive now al s)"
  by (induction al arbitrary: s) (auto simp: healthInv_timeOut)

lemma healthInv_sweep: "healthInv s \<Longrightarrow> healthInv (sweep now s)"
  by (simp add: sweep_def Let_def healthInv_sweepInactive healthInv_purgeDisconnected)

lemma healthInv_hitTimeout: "healthInv s \<Longrightarrow> healthInv (hitTimeout i s)"
  unfolding healthInv_def hitTimeout_def
  by (simp, intro allValues_map_entry) (simp_all add: healthInRange_def)

lemma healthInv_fold_hitTimeout:
  "healthInv s \<Longrightarrow> healthInv (fold (\<lambda>(due, i). hitTimeout i) ts s)"
  by (induction ts arbitrary: s) (auto simp: healthInv_hitTimeout)

lemma healthInv_runTimers: "healthInv s \<Longrightarrow> healthInv (runTimers now s)"
  using healthInv_fold_hitTimeout [of s "filter (\<lambda>(due, i). due \<le> now) (hitTimers s)"]
  by (simp add: runTimers_def healthInv_def)

lemma healthInv_handle: "healthInv s \<Longrightarrow> healthInv (handle now e s)"
  by (cases e)
     (simp_all add: healthInv_onConnection healthInv_laserFire healthInv_onDisconnect
        healthInv_playerUpdate healthInv_sweep,
      simp_all add: healthInv_def flushLasers_def syncState_def Let_def)

lemma healthInv_step: "healthInv s \<Longrightarrow> healthInv (step s e)"
  by (simp add: step_def healthInv_handle healthInv_runTimers)

lemma healthInv_foldl: "healthInv s \<Longrightarrow> healthInv (foldl step s es)"
  by (induction es arbitrary: s) (simp_all add: healthInv_step)

lemma healthInv_run: "healthInv (run es)"
  by (simp add: run_def healthInv_foldl healthInv_initial)

subsection \<open>The keys of the maps under each handler\<close>

lemma keys_onConnection:
  "keysOf (players (onConnection now i s)) = insert i (keysOf (players s))"
  "keysOf (disconnectedPlayers (onConnection now i s)) = keysOf (disconnectedPlayers s) - {i}"
  "keysOf (playerLastSeen (onConnection now i s)) = insert i (keysOf (playerLastSeen s))"
  by (auto simp: onConnection_def Let_def keysOf_update keysOf_delete map_of_None_keysOf
      split: option.splits)

lemma keys_applyDamage:
  "keysOf (players (applyDamage now i c s)) = keysOf (players s)"
  "disconnectedPlayers (applyDamage now i c s) = disconnectedPlayers s"
  "playerLastSeen (applyDamage now i c s) = playerLastSeen s"
  by (simp_all add: applyDamage_def Let_def keysOf_map_entry split: option.splits)

lemma keys_laserFire:
  "keysOf (players (laserFire now i data s)) = keysOf (players s)"
  "disconnectedPlayers (laserFire now i data s) = disconnectedPlayers s"
  "playerLastSeen (laserFire now i data s) = playerLastSeen s"
  by (simp_all add: laserFire_def bufferLaser_def Let_def keys_applyDamage split: option.splits)

lemma keys_onDisconnect:
  "keysOf (players (onDisconnect i s)) = keysOf (players s) - {i}"
  "keysOf (disconnectedPlayers (onDisconnect i s)) =
     (if i \<in> keysOf (players s) then insert i (keysOf (disconnectedPlayers s))
      else keysOf (disconnectedPlayers s))"
  "keysOf (playerLastSeen (onDisconnect i s)) = keysOf (playerLastSeen s) - {i}"
  by (auto simp: onDisconnect_def keysOf_update keysOf_delete map_of_None_keysOf
      dest: map_of_keysOf split: option.splits)

lemma keys_timeOut:
  "keysOf (players (timeOut i s)) = keysOf (players s) - {i}"
  "keysOf (disconnectedPlayers (timeOut i s)) =
     (if i \<in> keysOf (players s) then insert i (keysOf (disconnectedPlayers s))
      else keysOf (disconnectedPlayers s))"
  "keysOf (playerLastSeen (timeOut i s)) = keysOf (playerLastSeen s) - {i}"
  by (auto simp: timeOut_def keysOf_update keysOf_delete map_of_None_keysOf
      dest: map_of_keysOf split: option.splits)

lemma keys_playerUpdate:
  "keysOf (players (playerUpdate now i d s)) = keysOf (players s)"
  "disconnectedPlayers (playerUpdate now i d s) = disconnectedPlayers s"
  "keysOf (playerLastSeen (playerUpdate now i d s)) =
     (if i \<in> keysOf (players s) then insert i (keysOf (playerLastSeen s))
      else keysOf (playerLastSeen s))"
  by (auto simp: playerUpdate_def keysOf_update keysOf_map_entry map_of_None_keysOf
      dest: map_of_keysOf split: option.splits)

lemma keys_purgeDisconnected:
  "players (purgeDisconnected now s) = players s"
  "keysOf (disconnectedPlayers (purgeDisconnected now s)) \<subseteq> keysOf (disconnectedPlayers s)"
  "playerLastSeen (purgeDisconnected now s) = playerLastSeen s"
  by (simp_all add: purgeDisconnected_def keysOf_filter)

lemma keys_hitTimeout:
  "keysOf (players (hitTimeout i s)) = keysOf (players s)"
  "disconnectedPlayers (hitTimeout i s) = disconnectedPlayers s"
  "playerLastSeen (hitTimeout i s) = playerLastSeen s"
  by (simp_all add: hitTimeout_def keysOf_map_entry)

lemma keys_fold_hitTimeout:
  "keysOf (players (fold (\<lambda>(due, i). hitTimeout i) ts s)) = keysOf (players s)
   \<and> disconnectedPlayers (fold (\<lambda>(due, i). hitTimeout i) ts s) = disconnectedPlayers s
   \<and> playerLastSeen (fold (\<lambda>(due, i). hitTimeout i) ts s) = playerLastSeen s"
  by (induction ts arbitrary: s) (auto simp: keys_hitTimeout)

lemma keys_runTimers:
  "keysOf (players (runTimers now s)) = keysOf (players s)"
  "disconnectedPlayers (runTimers now s) = disconnectedPlayers s"
  "playerLastSeen (runTimers now s) = playerLastSeen s"
  by (simp_all add: runTimers_def keys_fold_hitTimeout)

subsection \<open>No id is in both registries\<close>

lemma registryInv_timeOut: "registryInv s \<Longrightarrow> registryInv (timeOut i s)"
  by (auto simp: registryInv_def keys_timeOut)

lemma registryInv_sweepInactive: "registryInv s \<Longrightarrow> registryInv (sweepInactive now al s)"
  by (induction al arbitrary: s) (auto simp: registryInv_timeOut)

lemma registryInv_purgeDisconnected: "registryInv s \<Longrightarrow> registryInv (purgeDisconnected now s)"
  using keys_purgeDisconnected(2) [of now s]
  by (auto simp: registryInv_def keys_purgeDisconnected(1))

lemma registryInv_handle: "registryInv s \<Longrightarrow> registryInv (handle now e s)"
proof (cases e)
  case (Connect i)
  assume "registryInv s"
  then show ?thesis using Connect by (auto simp: registryInv_def keys_onConnection)
next
  case (LaserFire i data)
  assume "registryInv s"
  then show ?thesis using LaserFire by (simp add: registryInv_def keys_laserFire)
next
  case (Disconnect i)
  assume "registryInv s"
  then show ?thesis using Disconnect by (auto simp: registryInv_def keys_onDisconnect)
next
  case (PlayerUpdate i d)
  assume "registryInv s"
  then show ?thesis using PlayerUpdate by (simp add: registryInv_def keys_playerUpdate)
next
  case Sweep
  assume "registryInv s"
  then show ?thesis using Sweep
    by (simp add: sweep_def Let_def registryInv_sweepInactive registryInv_purgeDisconnected)
next
  case FlushLasers
  assume "registryInv s"
  then show ?thesis using FlushLasers by (simp add: registryInv_def flushLasers_def Let_def)
next
  case SyncState
  assume "registryInv s"
  then show ?thesis using SyncState by (simp add: registryInv_def syncState_def Let_def)
qed

lemma registryInv_runTimers: "registryInv s \<Longrightarrow> registryInv (runTimers now s)"
  by (simp add: registryInv_def keys_runTimers)

lemma registryInv_step: "registryInv s \<Longrightarrow> registryInv (step s e)"
  by (simp add: step_def registryInv_handle registryInv_runTimers)

lemma registryInv_foldl: "registryInv s \<Longrightarrow> registryInv (foldl step s es)"
  by (induction es arbitrary: s) (simp_all add: registryInv_step)

lemma registryInv_initial: "registryInv initial"
  by (simp add: registryInv_def initial_def keysOf_Nil)

lemma registryInv_run: "registryInv (run es)"
  by (simp add: run_def registryInv_foldl registryInv_initial)

subsection \<open>The active map and playerLastSeen hold the same ids\<close>

lemma lastSeenInv_timeOut: "lastSeenInv s \<Longrightarrow> lastSeenInv (timeOut i s)"
  by (auto simp: lastSeenInv_def keys_timeOut)

lemma lastSeenInv_sweepInactive: "lastSeenInv s \<Longrightarrow> lastSeenInv (sweepInactive now al s)"
  by (induction al arbitrary: s) (auto simp: lastSeenInv_timeOut)

lemma lastSeenInv_handle: "lastSeenInv s \<Longrightarrow> lastSeenInv (handle now e s)"
proof (cases e)
  case (Connect i)
  assume "lastSeenInv s"
  then show ?thesis using Connect by (auto simp: lastSeenInv_def keys_onConnection)
next
  case (LaserFire i data)
  assume "lastSeenInv s"
  then show ?thesis using LaserFire by (simp add: lastSeenInv_def keys_laserFire)
next
  case (Disconnect i)
  assume "lastSeenInv s"
  then show ?thesis using Disconnect by (auto simp: lastSeenInv_def keys_onDisconnect)
next
  case (PlayerUpdate i d)
  assume "lastSeenInv s"
  then show ?thesis using PlayerUpdate by (auto simp: lastSeenInv_def keys_playerUpdate)
next
  case Sweep
  assume "lastSeenInv s"
  then have "lastSeenInv (purgeDisconnected now s)"
    by (simp add: lastSeenInv_def keys_purgeDisconnected)
  then show ?thesis using Sweep
    by (simp add: sweep_def Let_def lastSeenInv_sweepInactive)
next
  case FlushLasers
  assume "lastSeenInv s"
  then show ?thesis using FlushLasers by (simp add: lastSeenInv_def flushLasers_def Let_def)
next
  case SyncState
  assume "lastSeenInv s"
  then show ?thesis using SyncState by (simp add: lastSeenInv_def syncState_def Let_def)
qed

lemma lastSeenInv_runTimers: "lastSeenInv s \<Longrightarrow> lastSeenInv (runTimers now s)"
  by (simp add: lastSeenInv_def keys_runTimers)

lemma lastSeenInv_step: "lastSeenInv s \<Longrightarrow> lastSeenInv (step s e)"
  by (simp add: step_def lastSeenInv_handle lastSeenInv_runTimers)

lemma lastSeenInv_foldl: "lastSeenInv s \<Longrightarrow> lastSeenInv (foldl step s es)"
  by (induction es arbitrary: s) (simp_all add: lastSeenInv_step)

lemma lastSeenInv_initial: "lastSeenInv initial"
  by (simp add: lastSeenInv_def initial_def keysOf_Nil)

lemma lastSeenInv_run: "lastSeenInv (run es)"
  by (simp add: run_def lastSeenInv_foldl lastSeenInv_initial)

section \<open>What the handlers do to a record\<close>

lemma map_of_applyDamage:
  assumes v: "map_of (players s) c = Some v" and ci: "c \<noteq> i"
  shows "map_of (players (applyDamage now i c s)) j =
     (if j = c
      then Some (v\<lparr>health := max 0 (health v - 5),
                   kills := (if 0 < health v \<and> health v \<le> 5 then 0 else kills v),
                   recentlyHit := Some True\<rparr>)
      else if j = i \<and> 0 < health v \<and> health v \<le> 5
      then map_option (\<lambda>shooter. shooter\<lparr>kills := kills shooter + 1\<rparr>) (map_of (players s) i)
      else map_of (players s) j)"
proof -
  have k: "(0 < health v \<and> max 0 (health v - 5) = 0) = (0 < health v \<and> health v \<le> 5)"
    by auto
  show ?thesis
    using v ci
    by (cases "map_of (players s) i")
       (auto simp: applyDamage_def Let_def map_of_map_entry k)
qed

lemma hitTimers_applyDamage:
  "map_of (players s) c = Some v \<Longrightarrow>
   hitTimers (applyDamage now i c s) = hitTimers s @ [(now + 500, c)]"
  by (simp add: applyDamage_def Let_def)

lemma health_applyDamage_self:
  "map_of (players s) c = Some v \<Longrightarrow>
   \<exists>v'. map_of (players (applyDamage now i c s)) c = Some v' \<and> health v' = max 0 (health v - 5)"
  by (simp add: applyDamage_def Let_def map_of_map_entry)

lemma map_of_onConnection_fresh:
  "map_of (disconnectedPlayers s) i = None \<Longrightarrow>
   map_of (players (onConnection now i s)) i = Some (newPlayer i now)"
  by (simp add: onConnection_def Let_def update_conv')

lemma map_of_onConnection_restore:
  "map_of (disconnectedPlayers s) i = Some r \<Longrightarrow>
   map_of (players (onConnection now i s)) i = Some (r\<lparr>timestamp := now\<rparr>)
   \<and> map_of (disconnectedPlayers (onConnection now i s)) i = None"
  by (simp add: onConnection_def Let_def update_conv' delete_conv')

lemma health_respawn: "health (respawn d p) = 100 \<and> kills (respawn d p) = 0"
  by (simp add: respawn_def Let_def split: option.splits)

lemma map_of_playerUpdate:
  "map_of (players s) i = Some p \<Longrightarrow>
   map_of (players (playerUpdate now i d s)) i =
     Some ((if u_isRespawning d then respawn d else regularUpdate d) (p\<lparr>timestamp := now\<rparr>))"
  by (simp add: playerUpdate_def map_of_map_entry)


lemmas eval_simps = run_def step_def runTimers_def onConnection_def laserFire_def applyDamage_def
  bufferLaser_def onDisconnect_def playerUpdate_def sweep_def purgeDisconnected_def timeOut_def
  flushLasers_def syncState_def hitTimeout_def initial_def newPlayer_def publicState_def
  pointLineDistance_def js_div_def hitThreshold_def Let_def shot_def noUpdate_def scanVisit_def
  PLAYER_TIMEOUT_def DISCONNECTED_PLAYER_TIMEOUT_def respawn_def regularUpdate_def truthy_def


section \<open>The claims about the registry\<close>

text \<open>
  C1. In every reachable state the health of every player, active or disconnected, lies in
  \<open>[0,100]\<close>. A hit sets the victim's health to \<open>max 0 (health - 5)\<close>, a connection with
  no stored record creates a player with health 100, and a respawn sets health to 100.
\<close>

theorem health_within_bounds:
  "(\<forall>i p. map_of (players (run es)) i = Some p \<or> map_of (disconnectedPlayers (run es)) i = Some p
           \<longrightarrow> 0 \<le> health p \<and> health p \<le> 100)
   \<and> (\<forall>v. map_of (players s) c = Some v \<longrightarrow>
          (\<exists>v'. map_of (players (applyDamage now i c s)) c = Some v'
                \<and> health v' = max 0 (health v - 5)))
   \<and> (map_of (disconnectedPlayers s) i = None \<longrightarrow>
          (\<exists>p. map_of (players (onConnection now i s)) i = Some p \<and> health p = 100))
   \<and> (\<forall>p. map_of (players s) i = Some p \<and> u_isRespawning d \<longrightarrow>
          (\<exists>p'. map_of (players (playerUpdate now i d s)) i = Some p' \<and> health p' = 100))"
proof (intro conjI allI impI)
  fix j p
  assume "map_of (players (run es)) j = Some p \<or> map_of (disconnectedPlayers (run es)) j = Some p"
  moreover have "healthInv (run es)" by (rule healthInv_run)
  ultimately have "healthInRange p"
    unfolding healthInv_def by (auto dest: allValues_map_of)
  then show "0 \<le> health p" and "health p \<le> 100" by (simp_all add: healthInRange_def)
next
  fix v
  assume "map_of (players s) c = Some v"
  then show "\<exists>v'. map_of (players (applyDamage now i c s)) c = Some v'
                \<and> health v' = max 0 (health v - 5)"
    by (rule health_applyDamage_self)
next
  assume "map_of (disconnectedPlayers s) i = None"
  then show "\<exists>p. map_of (players (onConnection now i s)) i = Some p \<and> health p = 100"
    by (simp add: map_of_onConnection_fresh newPlayer_def)
next
  fix p
  assume "map_of (players s) i = Some p \<and> u_isRespawning d"
  then show "\<exists>p'. map_of (players (playerUpdate now i d s)) i = Some p' \<and> health p' = 100"
    by (simp add: map_of_playerUpdate health_respawn)
qed

theorem health_within_bounds_witness:
  "\<exists>p. map_of (players (run [(0, Connect ''A''), (0, Connect ''B''), (1, LaserFire ''A'' (Some shot))]))
          ''B'' = Some p
       \<and> health p = 95 \<and> 0 \<le> health p \<and> health p \<le> 100"
proof -
  let ?es = "[(0, Connect ''A''), (0, Connect ''B''), (1, LaserFire ''A'' (Some shot))]"
  obtain p where p: "map_of (players (run ?es)) ''B'' = Some p" and h: "health p = 95"
    by (simp add: eval_simps)
  from p have "0 \<le> health p \<and> health p \<le> 100"
    using health_within_bounds [of ?es] by blast
  with p h show ?thesis by blast
qed

text \<open>
  C3. In every reachable state no connection id is both in the active map \<open>players\<close> and
  in \<open>disconnectedPlayers\<close>.
\<close>

theorem registry_disjoint:
  "\<not> (map_of (players (run es)) i \<noteq> None \<and> map_of (disconnectedPlayers (run es)) i \<noteq> None)"
  using registryInv_run [of es]
  by (auto simp: registryInv_def map_of_None_keysOf)

theorem registry_disjoint_witness:
  "map_of (disconnectedPlayers (run [(0, Connect ''A''), (9000, Disconnect ''A'')])) ''A'' \<noteq> None
   \<and> map_of (players (run [(0, Connect ''A''), (9000, Disconnect ''A'')])) ''A'' = None"
proof -
  let ?es = "[(0, Connect ''A''), (9000, Disconnect ''A'')]"
  have d: "map_of (disconnectedPlayers (run ?es)) ''A'' \<noteq> None"
    by (simp add: eval_simps)
  with registry_disjoint [of ?es "''A''"] show ?thesis by blast
qed

text \<open>
  C10. Every operation of the server (connection and reconnection, \<open>playerUpdate\<close>,
  \<open>laserFire\<close>, disconnection, the two branches of the sweeper, the timer callbacks, and
  so every turn of the event loop) keeps the ids of \<open>players\<close> and of \<open>playerLastSeen\<close>
  the same; hence they are the same in every reachable state.
\<close>

theorem lastSeen_same_ids:
  "(lastSeenInv s \<longrightarrow>
      lastSeenInv (onConnection now i s) \<and> lastSeenInv (playerUpdate now i d s)
      \<and> lastSeenInv (laserFire now i data s) \<and> lastSeenInv (onDisconnect i s)
      \<and> lastSeenInv (purgeDisconnected now s) \<and> lastSeenInv (sweepInactive now al s)
      \<and> lastSeenInv (sweep now s) \<and> lastSeenInv (runTimers now s) \<and> lastSeenInv (step s e))
   \<and> lastSeenInv (run es)
   \<and> ((map_of (players (run es)) i = None) = (map_of (playerLastSeen (run es)) i = None))"
proof (intro conjI impI)
  assume inv: "lastSeenInv s"
  show "lastSeenInv (onConnection now i s)" using lastSeenInv_handle [OF inv, of now "Connect i"] by simp
  show "lastSeenInv (playerUpdate now i d s)" using lastSeenInv_handle [OF inv, of now "PlayerUpdate i d"] by simp
  show "lastSeenInv (laserFire now i data s)" using lastSeenInv_handle [OF inv, of now "LaserFire i data"] by simp
  show "lastSeenInv (onDisconnect i s)" using lastSeenInv_handle [OF inv, of now "Disconnect i"] by simp
  show "lastSeenInv (purgeDisconnected now s)" using inv by (simp add: lastSeenInv_def keys_purgeDisconnected)
  show "lastSeenInv (sweepInactive now al s)" by (rule lastSeenInv_sweepInactive [OF inv])
  show "lastSeenInv (sweep now s)" using lastSeenInv_handle [OF inv, of now Sweep] by simp
  show "lastSeenInv (runTimers now s)" by (rule lastSeenInv_runTimers [OF inv])
  show "lastSeenInv (step s e)" by (rule lastSeenInv_step [OF inv])
next
  show "lastSeenInv (run es)" by (rule lastSeenInv_run)
next
  show "(map_of (players (run es)) i = None) = (map_of (playerLastSeen (run es)) i = None)"
    using lastSeenInv_run [of es] by (simp add: lastSeenInv_def map_of_None_keysOf)
qed

theorem lastSeen_same_ids_witness:
  "lastSeenInv (onConnection 0 ''A'' initial)
   \<and> lastSeenInv (onDisconnect ''A'' (onConnection 0 ''A'' initial))
   \<and> lastSeenInv (sweep 20000 (onConnection 0 ''A'' initial))"
proof -
  have "lastSeenInv (onConnection 0 ''A'' initial)"
    by (simp add: lastSeenInv_def keysOf_def eval_simps)
  with lastSeen_same_ids [where s = "onConnection 0 ''A'' initial" and i = "''A''" and now = 20000]
  show ?thesis
    by blast
qed

section \<open>Reconnection\<close>

text \<open>
  C6. When the id of a new connection has a record in \<open>disconnectedPlayers\<close>,
  \<open>onConnection\<close> puts exactly that record, with only \<open>timestamp\<close> set to the current
  time, into \<open>players\<close> and removes it from \<open>disconnectedPlayers\<close>; health and kills are
  the stored ones. The same holds for the whole turn of the event loop.
\<close>

theorem reconnect_restores_record:
  "map_of (disconnectedPlayers s) i = Some r \<Longrightarrow>
     map_of (players (onConnection now i s)) i = Some (r\<lparr>timestamp := now\<rparr>)
   \<and> map_of (disconnectedPlayers (onConnection now i s)) i = None
   \<and> map_of (players (step s (now, Connect i))) i = Some (r\<lparr>timestamp := now\<rparr>)
   \<and> map_option health (map_of (players (onConnection now i s)) i) = Some (health r)
   \<and> map_option kills (map_of (players (onConnection now i s)) i) = Some (kills r)"
proof -
  assume r: "map_of (disconnectedPlayers s) i = Some r"
  then have "map_of (disconnectedPlayers (runTimers now s)) i = Some r"
    by (simp add: keys_runTimers)
  then have "map_of (players (step s (now, Connect i))) i = Some (r\<lparr>timestamp := now\<rparr>)"
    by (simp add: step_def map_of_onConnection_restore)
  with map_of_onConnection_restore [OF r, of now] show ?thesis by simp
qed

theorem reconnect_restores_record_witness:
  "map_of (players (onConnection 70000 ''A''
      (initial\<lparr>disconnectedPlayers := [(''A'', (newPlayer ''A'' 0)\<lparr>health := 40, kills := 3\<rparr>)]\<rparr>))) ''A''
     = Some ((newPlayer ''A'' 0)\<lparr>health := 40, kills := 3, timestamp := 70000\<rparr>)
   \<and> map_option health (map_of (players (onConnection 70000 ''A''
      (initial\<lparr>disconnectedPlayers := [(''A'', (newPlayer ''A'' 0)\<lparr>health := 40, kills := 3\<rparr>)]\<rparr>))) ''A'') = Some 40
   \<and> map_option kills (map_of (players (onConnection 70000 ''A''
      (initial\<lparr>disconnectedPlayers := [(''A'', (newPlayer ''A'' 0)\<lparr>health := 40, kills := 3\<rparr>)]\<rparr>))) ''A'') = Some 3"
proof -
  let ?r = "(newPlayer ''A'' 0)\<lparr>health := 40, kills := 3\<rparr>"
  let ?s = "initial\<lparr>disconnectedPlayers := [(''A'', ?r)]\<rparr>"
  have "map_of (disconnectedPlayers ?s) ''A'' = Some ?r" by simp
  from reconnect_restores_record [OF this, of 70000] show ?thesis by simp
qed

section \<open>Kills\<close>

text \<open>
  C2, as the code has it. The kill is credited under the guard \<open>if (shooter)\<close>: when a
  hit on \<open>c\<close> by another connection \<open>i\<close> takes the health of \<open>c\<close> from above 0 to 0, the
  kills of \<open>c\<close> become 0, and the kills of \<open>i\<close> grow by exactly 1 if \<open>i\<close> has a record in
  \<open>players\<close>; if it has none, no record of \<open>i\<close> is created or changed. A hit that
  leaves health above 0, or that finds the victim at 0 already, changes nobody's kills.
  (\<open>applyDamage\<close> is what \<open>laserFire\<close> does to the player its scan returns, who is
  never the shooter: \<open>laserFire_hit\<close> below.)
\<close>

theorem kill_coupling_active_shooter:
  "map_of (players s) c = Some v \<Longrightarrow> c \<noteq> i \<Longrightarrow>
   (\<exists>v'. map_of (players (applyDamage now i c s)) c = Some v'
      \<and> (0 < health v \<and> health v' = 0 \<longrightarrow>
            kills v' = 0
          \<and> (\<forall>sh. map_of (players s) i = Some sh \<longrightarrow>
                map_of (players (applyDamage now i c s)) i = Some (sh\<lparr>kills := kills sh + 1\<rparr>))
          \<and> (map_of (players s) i = None \<longrightarrow>
                map_of (players (applyDamage now i c s)) i = None
              \<and> disconnectedPlayers (applyDamage now i c s) = disconnectedPlayers s))
      \<and> (\<not> (0 < health v \<and> health v' = 0) \<longrightarrow>
            (\<forall>j q. map_of (players s) j = Some q \<longrightarrow>
               (\<exists>q'. map_of (players (applyDamage now i c s)) j = Some q' \<and> kills q' = kills q))))"
proof -
  assume v: "map_of (players s) c = Some v" and ci: "c \<noteq> i"
  note m = map_of_applyDamage [OF v ci, of now]
  let ?v' = "v\<lparr>health := max 0 (health v - 5),
                kills := (if 0 < health v \<and> health v \<le> 5 then 0 else kills v),
                recentlyHit := Some True\<rparr>"
  let ?s' = "applyDamage now i c s"
  have c: "map_of (players ?s') c = Some ?v'" by (simp add: m)
  have h': "health ?v' = max 0 (health v - 5)" by simp
  have k: "(0 < health v \<and> health ?v' = 0) = (0 < health v \<and> health v \<le> 5)"
    unfolding h' by linarith
  have kill: "0 < health v \<and> health ?v' = 0 \<longrightarrow>
            kills ?v' = 0
          \<and> (\<forall>sh. map_of (players s) i = Some sh \<longrightarrow>
                map_of (players ?s') i = Some (sh\<lparr>kills := kills sh + 1\<rparr>))
          \<and> (map_of (players s) i = None \<longrightarrow>
                map_of (players ?s') i = None \<and> disconnectedPlayers ?s' = disconnectedPlayers s)"
  proof
    assume "0 < health v \<and> health ?v' = 0"
    then have kk: "0 < health v \<and> health v \<le> 5" unfolding k .
    have i: "map_of (players ?s') i =
        map_option (\<lambda>shooter. shooter\<lparr>kills := kills shooter + 1\<rparr>) (map_of (players s) i)"
      using ci kk by (simp add: m)
    have "kills ?v' = 0" using kk by simp
    moreover have "\<forall>sh. map_of (players s) i = Some sh \<longrightarrow>
                map_of (players ?s') i = Some (sh\<lparr>kills := kills sh + 1\<rparr>)"
      by (simp add: i)
    moreover have "map_of (players s) i = None \<longrightarrow>
                map_of (players ?s') i = None \<and> disconnectedPlayers ?s' = disconnectedPlayers s"
      by (simp add: i keys_applyDamage)
    ultimately show "kills ?v' = 0
          \<and> (\<forall>sh. map_of (players s) i = Some sh \<longrightarrow>
                map_of (players ?s') i = Some (sh\<lparr>kills := kills sh + 1\<rparr>))
          \<and> (map_of (players s) i = None \<longrightarrow>
                map_of (players ?s') i = None \<and> disconnectedPlayers ?s' = disconnectedPlayers s)"
      by (intro conjI)
  qed
  have nokill: "\<not> (0 < health v \<and> health ?v' = 0) \<longrightarrow>
            (\<forall>j q. map_of (players s) j = Some q \<longrightarrow>
               (\<exists>q'. map_of (players ?s') j = Some q' \<and> kills q' = kills q))"
  proof (intro impI allI)
    fix j q
    assume "\<not> (0 < health v \<and> health ?v' = 0)" and q: "map_of (players s) j = Some q"
    then have nk: "\<not> (0 < health v \<and> health v \<le> 5)" unfolding k by simp
    show "\<exists>q'. map_of (players ?s') j = Some q' \<and> kills q' = kills q"
    proof (cases "j = c")
      case True
      with q v have "q = v" by simp
      moreover have "kills ?v' = kills v" using nk by auto
      ultimately show ?thesis using c True by simp
    next
      case False
      then have "map_of (players ?s') j = map_of (players s) j" using nk by (auto simp: m)
      with q show ?thesis by simp
    qed
  qed
  show ?thesis
    by (rule exI [of _ ?v']) (intro conjI c kill nokill)
qed

theorem kill_coupling_active_shooter_witness:
  "map_option health (map_of (players (applyDamage 20 ''A'' ''B''
      (initial\<lparr>players := [(''A'', newPlayer ''A'' 0), (''B'', (newPlayer ''B'' 0)\<lparr>health := 5, kills := 2\<rparr>)]\<rparr>))) ''B'') = Some 0
   \<and> map_option kills (map_of (players (applyDamage 20 ''A'' ''B''
      (initial\<lparr>players := [(''A'', newPlayer ''A'' 0), (''B'', (newPlayer ''B'' 0)\<lparr>health := 5, kills := 2\<rparr>)]\<rparr>))) ''B'') = Some 0
   \<and> map_option kills (map_of (players (applyDamage 20 ''A'' ''B''
      (initial\<lparr>players := [(''A'', newPlayer ''A'' 0), (''B'', (newPlayer ''B'' 0)\<lparr>health := 5, kills := 2\<rparr>)]\<rparr>))) ''A'') = Some 1"
proof -
  let ?vB = "(newPlayer ''B'' 0)\<lparr>health := 5, kills := 2\<rparr>"
  let ?s = "initial\<lparr>players := [(''A'', newPlayer ''A'' 0), (''B'', ?vB)]\<rparr>"
  let ?s' = "applyDamage 20 ''A'' ''B'' ?s"
  have b: "map_of (players ?s) ''B'' = Some ?vB" by simp
  have a: "map_of (players ?s) ''A'' = Some (newPlayer ''A'' 0)" by simp
  have ne: "''B'' \<noteq> ''A''" by simp
  have h: "map_option health (map_of (players ?s') ''B'') = Some 0"
    by (simp add: applyDamage_def Let_def)
  from kill_coupling_active_shooter [OF b ne, of 20] obtain v' where
    v': "map_of (players ?s') ''B'' = Some v'" and
    kill: "0 < health ?vB \<and> health v' = 0 \<longrightarrow> kills v' = 0
          \<and> (\<forall>sh. map_of (players ?s) ''A'' = Some sh \<longrightarrow>
                map_of (players ?s') ''A'' = Some (sh\<lparr>kills := kills sh + 1\<rparr>))"
    by blast
  from h v' have "health v' = 0" by simp
  moreover have "0 < health ?vB" by simp
  ultimately have "kills v' = 0" and
    "map_of (players ?s') ''A'' = Some ((newPlayer ''A'' 0)\<lparr>kills := kills (newPlayer ''A'' 0) + 1\<rparr>)"
    using kill a by blast+
  then have "map_option kills (map_of (players ?s') ''B'') = Some 0"
    and "map_option kills (map_of (players ?s') ''A'') = Some 1"
    using v' by (simp_all add: newPlayer_def)
  with h show ?thesis by blast
qed

text \<open>
  C2 as stated fails. In \<open>sweptShooterTrace\<close> the sweeper has removed A from \<open>players\<close>
  (A never sent a \<open>playerUpdate\<close>) while A's channel is still open. A's next shot takes
  B from health 5 to 0 and resets B's kills, but A's kills stay 0: A has no active record,
  and its stored record is untouched.
\<close>

theorem kill_without_credit_counterexample:
  "scoreboard (players (run sweptShooterTrace)) = [(''B'', 5, 0)]
   \<and> scoreboard (disconnectedPlayers (run sweptShooterTrace)) = [(''A'', 100, 0)]
   \<and> scoreboard (players (run (sweptShooterTrace @ [(10002, LaserFire ''A'' (Some shot))])))
       = [(''B'', 0, 0)]
   \<and> scoreboard (disconnectedPlayers (run (sweptShooterTrace @ [(10002, LaserFire ''A'' (Some shot))])))
       = [(''A'', 100, 0)]"
  by (simp add: sweptShooterTrace_def scoreboard_def eval_simps numeral_eq_Suc)

section \<open>Disconnection and the grace period\<close>

text \<open>
  C7. \<open>onDisconnect\<close> removes the record from \<open>players\<close> and emits \<open>playerLeft\<close>, but
  stores the record with the timestamp it already had (here 0, the time of connection),
  not the time of the disconnection (9000). The sweeper reads that timestamp as the time
  of disconnection, so at 61000 the record is purged although only 52000 ms have passed
  since the disconnection.
\<close>

theorem disconnect_keeps_last_update_stamp:
  "map_option timestamp (map_of (disconnectedPlayers
      (run [(0, Connect ''A''), (9000, Disconnect ''A'')])) ''A'') = Some 0
   \<and> map_of (players (run [(0, Connect ''A''), (9000, Disconnect ''A'')])) ''A'' = None
   \<and> last (outbox (run [(0, Connect ''A''), (9000, Disconnect ''A'')])) = PlayerLeft ''A''
   \<and> map_of (disconnectedPlayers
      (run [(0, Connect ''A''), (9000, Disconnect ''A''), (61000, Sweep)])) ''A'' = None
   \<and> \<not> (61000 - 9000 > DISCONNECTED_PLAYER_TIMEOUT)"
  by (simp add: eval_simps)

section \<open>The recentlyHit timers\<close>

lemma hitTimeout_sets_false:
  "map_of (players (hitTimeout c s)) c = Some v \<Longrightarrow> recentlyHit v = Some False"
  by (auto simp: hitTimeout_def map_of_map_entry split: option.splits)

lemma hitTimeout_keeps_false:
  "(\<And>v. map_of (players s) c = Some v \<Longrightarrow> recentlyHit v = Some False) \<Longrightarrow>
   map_of (players (hitTimeout c' s)) c = Some v \<Longrightarrow> recentlyHit v = Some False"
  by (cases "c' = c") (auto simp: hitTimeout_def map_of_map_entry split: option.splits)

lemma hitTimeout_other:
  "c' \<noteq> c \<Longrightarrow> map_of (players (hitTimeout c' s)) c = map_of (players s) c"
  by (simp add: hitTimeout_def map_of_map_entry)

lemma fold_hitTimeout_keeps_false:
  "(\<And>v. map_of (players s) c = Some v \<Longrightarrow> recentlyHit v = Some False) \<Longrightarrow>
   map_of (players (fold (\<lambda>(due, i). hitTimeout i) ts s)) c = Some v \<Longrightarrow>
   recentlyHit v = Some False"
proof (induction ts arbitrary: s)
  case Nil
  then show ?case by simp
next
  case (Cons t ts)
  obtain due c' where t: "t = (due, c')" by (cases t)
  have "\<And>w. map_of (players (hitTimeout c' s)) c = Some w \<Longrightarrow> recentlyHit w = Some False"
    using Cons.prems(1) by (rule hitTimeout_keeps_false)
  then show ?case using Cons.IH [of "hitTimeout c' s"] Cons.prems(2) by (simp add: t)
qed

lemma fold_hitTimeout_resets:
  "c \<in> snd ` set ts \<Longrightarrow>
   map_of (players (fold (\<lambda>(due, i). hitTimeout i) ts s)) c = Some v \<Longrightarrow>
   recentlyHit v = Some False"
proof (induction ts arbitrary: s)
  case Nil
  then show ?case by simp
next
  case (Cons t ts)
  obtain due c' where t: "t = (due, c')" by (cases t)
  show ?case
  proof (cases "c' = c")
    case True
    have "\<And>w. map_of (players (hitTimeout c s)) c = Some w \<Longrightarrow> recentlyHit w = Some False"
      by (rule hitTimeout_sets_false)
    then show ?thesis
      using fold_hitTimeout_keeps_false [of "hitTimeout c s" c ts v] Cons.prems(2)
      by (simp add: t True)
  next
    case False
    then have "c \<in> snd ` set ts" using Cons.prems(1) by (auto simp: t)
    then show ?thesis using Cons.IH [of "hitTimeout c' s"] Cons.prems(2) by (simp add: t)
  qed
qed

lemma fold_hitTimeout_untouched:
  "c \<notin> snd ` set ts \<Longrightarrow>
   map_of (players (fold (\<lambda>(due, i). hitTimeout i) ts s)) c = map_of (players s) c"
  by (induction ts arbitrary: s) (auto simp: hitTimeout_other)

lemma players_runTimers:
  "players (runTimers now s) =
     players (fold (\<lambda>(due, i). hitTimeout i) (filter (\<lambda>(due, i). due \<le> now) (hitTimers s)) s)"
  by (simp add: runTimers_def)

text \<open>
  C8, as the code has it. Every hit sets the victim's \<open>recentlyHit\<close> to true and queues
  a reset of its own, due 500 ms later, behind the resets already pending: none is
  cancelled. When the resets due by \<open>now\<close> have run, a player who had one of them has
  \<open>recentlyHit\<close> false, whatever resets are still pending for that player; a player with
  no reset due is untouched; the resets not yet due stay queued.
\<close>

theorem hit_timers_stack:
  "(\<forall>v. map_of (players s) c = Some v \<longrightarrow>
        hitTimers (applyDamage now i c s) = hitTimers s @ [(now + 500, c)]
      \<and> map_option recentlyHit (map_of (players (applyDamage now i c s)) c) = Some (Some True))
   \<and> (\<forall>due v. (due, c) \<in> set (hitTimers s) \<and> due \<le> now
          \<and> map_of (players (runTimers now s)) c = Some v \<longrightarrow> recentlyHit v = Some False)
   \<and> ((\<forall>due. (due, c) \<in> set (hitTimers s) \<longrightarrow> now < due) \<longrightarrow>
          map_of (players (runTimers now s)) c = map_of (players s) c)
   \<and> hitTimers (runTimers now s) = filter (\<lambda>(due, c). now < due) (hitTimers s)"
proof (intro conjI allI impI)
  fix v
  assume v: "map_of (players s) c = Some v"
  then show "hitTimers (applyDamage now i c s) = hitTimers s @ [(now + 500, c)]"
    by (rule hitTimers_applyDamage)
  show "map_option recentlyHit (map_of (players (applyDamage now i c s)) c) = Some (Some True)"
    using v by (simp add: applyDamage_def Let_def map_of_map_entry)
next
  fix due v
  assume a: "(due, c) \<in> set (hitTimers s) \<and> due \<le> now
          \<and> map_of (players (runTimers now s)) c = Some v"
  then have mem: "c \<in> snd ` set (filter (\<lambda>(due, i). due \<le> now) (hitTimers s))"
    by (auto intro: rev_image_eqI)
  have m: "map_of (players (fold (\<lambda>(due, i). hitTimeout i)
              (filter (\<lambda>(due, i). due \<le> now) (hitTimers s)) s)) c = Some v"
    using a by (simp add: players_runTimers)
  show "recentlyHit v = Some False"
    by (rule fold_hitTimeout_resets [OF mem m])
next
  assume "\<forall>due. (due, c) \<in> set (hitTimers s) \<longrightarrow> now < due"
  then have "c \<notin> snd ` set (filter (\<lambda>(due, i). due \<le> now) (hitTimers s))"
    by auto
  then show "map_of (players (runTimers now s)) c = map_of (players s) c"
    by (simp add: players_runTimers fold_hitTimeout_untouched)
next
  have "(\<lambda>(due, i). \<not> due \<le> now) = (\<lambda>(due :: int, c :: conn_id). now < due)"
    by (auto simp: fun_eq_iff)
  then show "hitTimers (runTimers now s) = filter (\<lambda>(due, c). now < due) (hitTimers s)"
    by (simp add: runTimers_def)
qed

theorem hit_timers_stack_witness:
  "hitTimers (applyDamage 1300 ''A'' ''B''
      (initial\<lparr>players := [(''B'', newPlayer ''B'' 0)], hitTimers := [(1500, ''B'')]\<rparr>))
     = [(1500, ''B''), (1800, ''B'')]
   \<and> map_option recentlyHit (map_of (players (runTimers 1500
        (initial\<lparr>players := [(''B'', (newPlayer ''B'' 0)\<lparr>recentlyHit := Some True\<rparr>)],
                 hitTimers := [(1500, ''B''), (1800, ''B'')]\<rparr>))) ''B'') = Some (Some False)"
proof -
  let ?s1 = "initial\<lparr>players := [(''B'', newPlayer ''B'' 0)], hitTimers := [(1500, ''B'')]\<rparr>"
  let ?s2 = "initial\<lparr>players := [(''B'', (newPlayer ''B'' 0)\<lparr>recentlyHit := Some True\<rparr>)],
                 hitTimers := [(1500, ''B''), (1800, ''B'')]\<rparr>"
  have "map_of (players ?s1) ''B'' = Some (newPlayer ''B'' 0)" by simp
  with hit_timers_stack [of ?s1 "''B''" 1300 "''A''"]
  have a: "hitTimers (applyDamage 1300 ''A'' ''B'' ?s1) = hitTimers ?s1 @ [(1300 + 500, ''B'')]"
    by blast
  obtain v where v: "map_of (players (runTimers 1500 ?s2)) ''B'' = Some v"
    by (simp add: runTimers_def hitTimeout_def)
  have "(1500, ''B'') \<in> set (hitTimers ?s2) \<and> (1500::int) \<le> 1500" by simp
  with v hit_timers_stack [of ?s2 "''B''" 1500] have "recentlyHit v = Some False" by blast
  with v a show ?thesis by simp
qed

text \<open>
  C8 as stated fails. B is hit at 1000 and again at 1300: two resets are pending, due
  1500 and 1800. At 1600, only 300 ms after the latest hit, the first reset has run and
  \<open>recentlyHit\<close> is false.
\<close>

theorem hit_timers_stack_counterexample:
  "hitTimers (run [(0, Connect ''A''), (0, Connect ''B''), (1000, LaserFire ''A'' (Some shot)),
                   (1300, LaserFire ''A'' (Some shot))]) = [(1500, ''B''), (1800, ''B'')]
   \<and> map_option recentlyHit (map_of (players
        (run [(0, Connect ''A''), (0, Connect ''B''), (1000, LaserFire ''A'' (Some shot)),
              (1300, LaserFire ''A'' (Some shot)), (1600, SyncState)])) ''B'') = Some (Some False)
   \<and> hitTimers (run [(0, Connect ''A''), (0, Connect ''B''), (1000, LaserFire ''A'' (Some shot)),
              (1300, LaserFire ''A'' (Some shot)), (1600, SyncState)]) = [(1800, ''B'')]
   \<and> (1600::int) < 1300 + 500"
  by (simp add: eval_simps)

section \<open>The hit scan\<close>

lemma scanVisit_hitDistance:
  "scanVisit i sp ep e acc =
     (case hitDistance i sp ep e of
        None \<Rightarrow> acc
      | Some d \<Rightarrow>
          (case acc of
             None \<Rightarrow> Some (d, fst e)
           | Some (m, c) \<Rightarrow> if d < m then Some (d, fst e) else acc))"
  by (cases e) (auto simp: scanVisit_def hitDistance_def split: option.splits)


lemma findClosest_Some_from:
  "findClosest i sp ep ps acc = Some (d, c) \<Longrightarrow>
     acc = Some (d, c) \<or> (\<exists>p. (c, p) \<in> set ps \<and> hitDistance i sp ep (c, p) = Some d)"
proof (induction ps arbitrary: acc)
  case Nil
  then show ?case by simp
next
  case (Cons e ps)
  have step: "scanVisit i sp ep e acc = Some (d, c) \<Longrightarrow>
      acc = Some (d, c) \<or> (c = fst e \<and> hitDistance i sp ep e = Some d)"
    by (auto simp: scanVisit_hitDistance split: option.splits if_splits)
  have "findClosest i sp ep ps (scanVisit i sp ep e acc) = Some (d, c)"
    using Cons.prems by simp
  from Cons.IH [OF this] show ?case
  proof
    assume "scanVisit i sp ep e acc = Some (d, c)"
    from step [OF this] show ?thesis
    proof
      assume "acc = Some (d, c)"
      then show ?thesis by simp
    next
      assume "c = fst e \<and> hitDistance i sp ep e = Some d"
      then have "(c, snd e) \<in> set (e # ps) \<and> hitDistance i sp ep (c, snd e) = Some d"
        by (cases e) simp
      then show ?thesis by blast
    qed
  next
    assume "\<exists>p. (c, p) \<in> set ps \<and> hitDistance i sp ep (c, p) = Some d"
    then show ?thesis by auto
  qed
qed














lemma hitDistance_Some_iff:
  "hitDistance i sp ep (j, p) = Some d \<longleftrightarrow>
     j \<noteq> i \<and> 0 < health p \<and> pointLineDistance (position p) sp ep = Some d \<and> d < hitThreshold"
  by (auto simp: hitDistance_def split: option.splits)


lemma laserFire_hit:
  "startPosition d = Some sp \<Longrightarrow> endPosition d = Some ep \<Longrightarrow> likelyHit d \<Longrightarrow>
   findClosest i sp ep (players s) None = Some (dc, c) \<Longrightarrow>
   c \<noteq> i \<and> laserFire now i (Some d) s = bufferLaser i d (applyDamage now i c s)"
  using findClosest_Some_from [of i sp ep "players s" None dc c]
  by (auto simp: laserFire_def hitDistance_Some_iff)




end
